theory Spec2Isabelle
  imports Complex_Main "HOL-Library.Log_Nat"
begin

section \<open>Python values, errors and the random source\<close>

text \<open>
  The generator works on a schema that was read from JSON, so a schema is any value that
  \<^verbatim>\<open>json.load\<close> can return. A dictionary is an association list in insertion order whose
  keys are distinct. Strings are lists of 8-bit characters, read as the code points 0 to
  255. A binary64 float is represented by the real number it denotes, and every float
  operation rounds its exact result to the nearest binary64 number, ties to even
  (\<open>binary64\<close> below). A conversion of an integer that is too large for a float raises
  \<^verbatim>\<open>OverflowError\<close>; no other operation of the generator leaves the range. Limits of the machine and of the interpreter
  (memory, the size of a string, the configurable bound on the digits of an integer that
  is read or printed) are not modelled.
\<close>

datatype pyval =
    PNone
  | PBool bool
  | PInt int
  | PFloat real
  | PStr string
  | PList "pyval list"
  | PDict "(string \<times> pyval) list"

datatype error =
    KeyError string
  | TypeError
  | AttributeError
  | OverflowError
  | OSError

text \<open>The values the generator stores in a record: a string, an integer or a float.\<close>

datatype genval = VStr string | VInt int | VFloat real

type_synonym pyrecord = "(pyval \<times> genval) list"

text \<open>
  The pseudo-random generators of \<^verbatim>\<open>random\<close> and of Faker are represented by an arbitrary
  stream of natural numbers that is consumed one element per draw. Whatever a theorem
  states for every stream holds for every run.
\<close>

record rng =
  entropy :: "nat \<Rightarrow> nat"
  pos :: nat

definition draw :: "rng \<Rightarrow> nat \<times> rng" where
  "draw g = (entropy g (pos g), g\<lparr>pos := Suc (pos g)\<rparr>)"

definition randbelow :: "nat \<Rightarrow> rng \<Rightarrow> nat \<times> rng" where
  "randbelow n g = (let (e, g') = draw g in (e mod n, g'))"

text \<open>\<^verbatim>\<open>random.randint(a, b)\<close> is \<^verbatim>\<open>a + _randbelow(b - a + 1)\<close>; its only call has \<open>a \<le> b\<close>.\<close>

definition randint :: "int \<Rightarrow> int \<Rightarrow> rng \<Rightarrow> int \<times> rng" where
  "randint a b g = (let (k, g') = randbelow (nat (b - a + 1)) g in (a + int k, g'))"

text \<open>\<^verbatim>\<open>random.random()\<close> returns \<open>k / 2^53\<close> for some \<open>k < 2^53\<close>.\<close>

definition random :: "rng \<Rightarrow> real \<times> rng" where
  "random g = (let (k, g') = randbelow (2 ^ 53) g in (real k / 2 ^ 53, g'))"

subsection \<open>Numbers\<close>

datatype pynum = NInt int | NFloat real

text \<open>The nearest integer, ties to the even one.\<close>

definition round_half_even :: "real \<Rightarrow> int" where
  "round_half_even x =
     (let f = \<lfloor>x\<rfloor>; d = x - of_int f
      in if d < 1 / 2 then f else if 1 / 2 < d then f + 1 else if even f then f else f + 1)"

text \<open>
  Rounding to binary64. The exponent of \<open>x \<noteq> 0\<close> is the \<open>e\<close> with
  \<open>2^e \<le> \<bar>x\<bar> < 2^(e+1)\<close>, computed from the bit length of an integer. A binary64 number
  has 53 significant bits and no exponent below \<open>-1022\<close>, so near \<open>x\<close> the binary64
  numbers are the multiples of \<open>2^(max e (-1022) - 52)\<close>, and \<open>x\<close> is rounded to the nearest
  of them, ties to the even multiple.
\<close>

definition exponent :: "real \<Rightarrow> int" where
  "exponent x =
     (let a = \<bar>x\<bar> in if 1 \<le> a then bitlen \<lfloor>a\<rfloor> - 1 else - bitlen (\<lceil>1 / a\<rceil> - 1))"

definition ulp_exponent :: "real \<Rightarrow> int" where
  "ulp_exponent x = max (exponent x) (- 1022) - 52"

definition binary64 :: "real \<Rightarrow> real" where
  "binary64 x =
     (if x = 0 then 0
      else of_int (round_half_even (x / 2 powi ulp_exponent x)) * 2 powi ulp_exponent x)"

text \<open>
  Converting an integer to a float raises \<^verbatim>\<open>OverflowError\<close> when the integer rounds to a
  value beyond the largest binary64 number, that is from \<open>2^1024 - 2^970\<close> on, and
  gives the nearest binary64 number otherwise.
\<close>

definition int_to_float :: "int \<Rightarrow> error + real" where
  "int_to_float i =
     (if 2 ^ 1024 - 2 ^ 970 \<le> \<bar>i\<bar> then Inl OverflowError
      else Inr (binary64 (real_of_int i)))"

fun to_float :: "pynum \<Rightarrow> error + real" where
  "to_float (NInt i) = int_to_float i"
| "to_float (NFloat x) = Inr x"

fun num_sub :: "pynum \<Rightarrow> pynum \<Rightarrow> error + pynum" where
  "num_sub (NInt b) (NInt a) = Inr (NInt (b - a))"
| "num_sub b a =
     (case to_float b of Inl e \<Rightarrow> Inl e
      | Inr x \<Rightarrow>
          (case to_float a of
             Inl e \<Rightarrow> Inl e
           | Inr y \<Rightarrow> Inr (NFloat (binary64 (x - y)))))"

text \<open>
  \<^verbatim>\<open>random.uniform(a, b)\<close> is \<^verbatim>\<open>a + (b - a) * self.random()\<close>: the difference is taken
  first, then the draw, then the product and the sum, each rounded to binary64.
\<close>

definition uniform :: "pynum \<Rightarrow> pynum \<Rightarrow> rng \<Rightarrow> (error + real) \<times> rng" where
  "uniform a b g =
     (case num_sub b a of
        Inl e \<Rightarrow> (Inl e, g)
      | Inr d \<Rightarrow>
          (let (u, g') = random g in
           (case to_float d of
              Inl e \<Rightarrow> (Inl e, g')
            | Inr df \<Rightarrow>
                (case to_float a of
                   Inl e \<Rightarrow> (Inl e, g')
                 | Inr af \<Rightarrow> (Inr (binary64 (af + binary64 (df * u))), g')))))"

text \<open>
  \<^verbatim>\<open>round(x, n)\<close> on a float with \<open>n \<ge> 0\<close>: the exact value of \<open>x\<close> is rounded to the nearest
  multiple of \<open>10^-n\<close>, ties to the even one, and the float nearest to that decimal number
  is returned.
\<close>

definition py_round :: "real \<Rightarrow> nat \<Rightarrow> real" where
  "py_round x n = binary64 (of_int (round_half_even (x * 10 ^ n)) / 10 ^ n)"

text \<open>
  \<^verbatim>\<open>10**(precision - scale) - 1\<close>: an integer when the exponent is not negative; with a
  negative exponent Python converts base and exponent to floats and the result is a
  float: the power (taken to be correctly rounded) minus one, rounded again.
\<close>

definition max_value_of :: "nat \<Rightarrow> nat \<Rightarrow> error + pynum" where
  "max_value_of precision scale =
     (if scale \<le> precision then Inr (NInt (10 ^ (precision - scale) - 1))
      else (case int_to_float (int precision - int scale) of
              Inl e \<Rightarrow> Inl e
            | Inr _ \<Rightarrow>
                Inr (NFloat (binary64 (binary64 (1 / 10 ^ (scale - precision)) - 1)))))"

subsection \<open>Strings\<close>

definition newline :: char where
  "newline = CHR 0x0A"

definition lower_char :: "char \<Rightarrow> char" where
  "lower_char c =
     (let n = (of_char c :: nat)
      in if (65 \<le> n \<and> n \<le> 90) \<or> (192 \<le> n \<and> n \<le> 214) \<or> (216 \<le> n \<and> n \<le> 222)
         then char_of (n + 32) else c)"

definition lower :: "string \<Rightarrow> string" where
  "lower s = map lower_char s"

definition startswith :: "string \<Rightarrow> string \<Rightarrow> bool" where
  "startswith p s = (take (length p) s = p)"

definition is_digit :: "char \<Rightarrow> bool" where
  "is_digit c = (c \<in> set ''0123456789'')"

definition digit_value :: "char \<Rightarrow> nat" where
  "digit_value c = of_char c - 48"

definition int_of_digits :: "string \<Rightarrow> nat" where
  "int_of_digits ds = foldl (\<lambda>a c. 10 * a + digit_value c) 0 ds"

definition digit_char :: "nat \<Rightarrow> char" where
  "digit_char d = ''0123456789'' ! d"

fun digits :: "nat \<Rightarrow> string" where
  "digits n = (if n < 10 then [digit_char n] else digits (n div 10) @ [digit_char (n mod 10)])"

declare digits.simps [simp del]

text \<open>\<^verbatim>\<open>str(i)\<close> for an integer, as the f-string of the file name and \<^verbatim>\<open>json.dumps\<close> print it.\<close>

definition str_int :: "int \<Rightarrow> string" where
  "str_int i = (if i < 0 then CHR ''-'' # digits (nat (- i)) else digits (nat i))"

text \<open>\<^verbatim>\<open>'?' * n\<close>: a repetition for an integer or a boolean, a \<^verbatim>\<open>TypeError\<close> otherwise.\<close>

fun str_mul :: "string \<Rightarrow> pyval \<Rightarrow> error + string" where
  "str_mul s (PInt n) = Inr (concat (replicate (nat n) s))"
| "str_mul s (PBool b) = Inr (if b then s else [])"
| "str_mul s _ = Inl TypeError"

text \<open>\<^verbatim>\<open>os.path.join\<close> of two components on a POSIX system.\<close>

definition path_join :: "string \<Rightarrow> string \<Rightarrow> string" where
  "path_join a b =
     (if startswith ''/'' b then b
      else if a = [] \<or> last a = CHR ''/'' then a @ b
      else a @ ''/'' @ b)"

subsection \<open>Subscripts, iteration and dictionary assignment\<close>

text \<open>\<^verbatim>\<open>v[key]\<close> with a string key: a lookup in a dictionary, a \<^verbatim>\<open>TypeError\<close> on anything else.\<close>

fun subscript :: "pyval \<Rightarrow> string \<Rightarrow> error + pyval" where
  "subscript (PDict kvs) k = (case map_of kvs k of None \<Rightarrow> Inl (KeyError k) | Some v \<Rightarrow> Inr v)"
| "subscript _ k = Inl TypeError"

text \<open>\<^verbatim>\<open>for x in v\<close>: the elements of a list, the keys of a dictionary, the characters of a string.\<close>

fun py_iter :: "pyval \<Rightarrow> error + pyval list" where
  "py_iter (PList xs) = Inr xs"
| "py_iter (PDict kvs) = Inr (map (\<lambda>kv. PStr (fst kv)) kvs)"
| "py_iter (PStr s) = Inr (map (\<lambda>c. PStr [c]) s)"
| "py_iter _ = Inl TypeError"

text \<open>\<^verbatim>\<open>field.get("doc", "").lower()\<close>: only a string has the method \<^verbatim>\<open>lower\<close>.\<close>

fun get_doc_lower :: "pyval \<Rightarrow> error + string" where
  "get_doc_lower (PDict kvs) =
     (case map_of kvs ''doc'' of
        None \<Rightarrow> Inr (lower [])
      | Some (PStr d) \<Rightarrow> Inr (lower d)
      | Some _ \<Rightarrow> Inl AttributeError)"
| "get_doc_lower _ = Inl AttributeError"

fun hashable :: "pyval \<Rightarrow> bool" where
  "hashable (PList _) = False"
| "hashable (PDict _) = False"
| "hashable _ = True"

text \<open>Dictionary keys that are equal numbers are one key: \<^verbatim>\<open>True == 1 == 1.0\<close>.\<close>

fun key_norm :: "pyval \<Rightarrow> pyval" where
  "key_norm (PBool b) = PInt (if b then 1 else 0)"
| "key_norm (PFloat x) = (if x = of_int \<lfloor>x\<rfloor> then PInt \<lfloor>x\<rfloor> else PFloat x)"
| "key_norm v = v"

text \<open>An existing key keeps its place and its first spelling, a new key goes to the end.\<close>

fun assign :: "pyrecord \<Rightarrow> pyval \<Rightarrow> genval \<Rightarrow> pyrecord" where
  "assign [] k v = [(k, v)]"
| "assign ((k', v') # r) k v =
     (if key_norm k' = key_norm k then (k', v) # r else (k', v') # assign r k v)"

definition setitem :: "pyrecord \<Rightarrow> pyval \<Rightarrow> genval \<Rightarrow> error + pyrecord" where
  "setitem r k v = (if hashable k then Inr (assign r k v) else Inl TypeError)"

fun getitem :: "pyrecord \<Rightarrow> pyval \<Rightarrow> genval option" where
  "getitem [] k = None"
| "getitem ((k', v') # r) k = (if key_norm k' = key_norm k then Some v' else getitem r k)"

section \<open>The collaborators: Faker and the JSON serializer\<close>

text \<open>
  The generators of Faker return strings that depend on its word lists; they are
  parameters of the model, each drawing from the random source. The text that
  \<^verbatim>\<open>json.dumps\<close> prints for a float (\<^verbatim>\<open>float.__repr__\<close>) is a parameter as well.
\<close>

record collaborators =
  fake_email :: "rng \<Rightarrow> string \<times> rng"
  fake_name :: "rng \<Rightarrow> string \<times> rng"
  fake_address :: "rng \<Rightarrow> string \<times> rng"
  fake_postcode :: "rng \<Rightarrow> string \<times> rng"
  fake_credit_card_number :: "rng \<Rightarrow> string \<times> rng"
  fake_date_time_isoformat :: "rng \<Rightarrow> string \<times> rng"
  fake_date :: "rng \<Rightarrow> string \<times> rng"
  fake_word :: "rng \<Rightarrow> string \<times> rng"
  float_repr :: "real \<Rightarrow> string"

text \<open>
  \<^verbatim>\<open>Faker.lexify(text)\<close> replaces every question mark of \<open>text\<close> by a random element of
  \<^verbatim>\<open>string.ascii_letters\<close> and keeps the other characters.
\<close>

definition ascii_letters :: string where
  "ascii_letters = ''abcdefghijklmnopqrstuvwxyzABCDEFGHIJKLMNOPQRSTUVWXYZ''"

fun lexify :: "string \<Rightarrow> rng \<Rightarrow> string \<times> rng" where
  "lexify [] g = ([], g)"
| "lexify (c # cs) g =
     (if c = CHR ''?''
      then (let (i, g1) = randbelow (length ascii_letters) g;
                (rest, g2) = lexify cs g1
            in (ascii_letters ! i # rest, g2))
      else (let (rest, g2) = lexify cs g in (c # rest, g2)))"

subsection \<open>\<^verbatim>\<open>json.dumps\<close> of a record\<close>

definition hex_digit :: "nat \<Rightarrow> char" where
  "hex_digit n = ''0123456789abcdef'' ! n"

text \<open>
  With \<^verbatim>\<open>ensure_ascii\<close> every character outside the range from space to tilde is escaped,
  and so are the double quote and the backslash.
\<close>

definition escape_char :: "char \<Rightarrow> string" where
  "escape_char c =
     (let n = (of_char c :: nat)
      in if c = CHR 0x5C then [CHR 0x5C, CHR 0x5C]
         else if c = CHR 0x22 then [CHR 0x5C, CHR 0x22]
         else if c = CHR 0x08 then [CHR 0x5C, CHR ''b'']
         else if c = CHR 0x0C then [CHR 0x5C, CHR ''f'']
         else if c = CHR 0x0A then [CHR 0x5C, CHR ''n'']
         else if c = CHR 0x0D then [CHR 0x5C, CHR ''r'']
         else if c = CHR 0x09 then [CHR 0x5C, CHR ''t'']
         else if 32 \<le> n \<and> n \<le> 126 then [c]
         else [CHR 0x5C, CHR ''u'', CHR ''0'', CHR ''0'', hex_digit (n div 16), hex_digit (n mod 16)])"

definition json_str :: "string \<Rightarrow> string" where
  "json_str s = CHR 0x22 # concat (map escape_char s) @ [CHR 0x22]"

text \<open>A key that is not a string is printed as a string; lists and dictionaries are never keys.\<close>

fun key_str :: "(real \<Rightarrow> string) \<Rightarrow> pyval \<Rightarrow> string" where
  "key_str fr (PStr s) = s"
| "key_str fr (PFloat x) = fr x"
| "key_str fr (PBool b) = (if b then ''true'' else ''false'')"
| "key_str fr PNone = ''null''"
| "key_str fr (PInt i) = str_int i"
| "key_str fr _ = []"

fun dumps_value :: "(real \<Rightarrow> string) \<Rightarrow> genval \<Rightarrow> string" where
  "dumps_value fr (VStr s) = json_str s"
| "dumps_value fr (VInt i) = str_int i"
| "dumps_value fr (VFloat x) = fr x"

definition dumps_item :: "(real \<Rightarrow> string) \<Rightarrow> pyval \<times> genval \<Rightarrow> string" where
  "dumps_item fr kv = json_str (key_str fr (fst kv)) @ '': '' @ dumps_value fr (snd kv)"

fun join_items :: "string list \<Rightarrow> string" where
  "join_items [] = []"
| "join_items [x] = x"
| "join_items (x # y # ys) = x @ '', '' @ join_items (y # ys)"

definition json_dumps :: "(real \<Rightarrow> string) \<Rightarrow> pyrecord \<Rightarrow> string" where
  "json_dumps fr r = ''{'' @ join_items (map (dumps_item fr) r) @ ''}''"

section \<open>The data generator\<close>

subsection \<open>\<^verbatim>\<open>handle_complex_type\<close>\<close>

definition handle_complex_type :: "pyval \<Rightarrow> rng \<Rightarrow> error + (string option \<times> rng)" where
  "handle_complex_type field g =
     (case subscript field ''type'' of
        Inl e \<Rightarrow> Inl e
      | Inr t \<Rightarrow>
          (case t of
             PDict kvs \<Rightarrow>
               (case subscript t ''type'' of
                  Inl e \<Rightarrow> Inl e
                | Inr tt \<Rightarrow>
                    if tt = PStr ''string'' \<and> ''maxLength'' \<in> fst ` set kvs
                    then (case subscript t ''maxLength'' of
                            Inl e \<Rightarrow> Inl e
                          | Inr max_length \<Rightarrow>
                              (case str_mul ''?'' max_length of
                                 Inl e \<Rightarrow> Inl e
                               | Inr template \<Rightarrow>
                                   (let (s, g') = lexify template g in Inr (Some s, g'))))
                    else Inr (None, g))
           | _ \<Rightarrow> Inr (None, g)))"

subsection \<open>\<^verbatim>\<open>parse_number_format\<close>\<close>

text \<open>
  \<^verbatim>\<open>re.match(r'number\((\d+),(\d+)\)', doc)\<close> matches at the start of \<open>doc\<close> and ignores what
  follows the closing parenthesis. A digit group is greedy, and giving digits back never
  helps because the next character of the pattern is not a digit, so each group is the
  longest run of digits.
\<close>

definition parse_number_format :: "string \<Rightarrow> (nat \<times> nat) option" where
  "parse_number_format doc =
     (if \<not> startswith ''number('' doc then None
      else (let r1 = drop 7 doc; d1 = takeWhile is_digit r1; r2 = dropWhile is_digit r1
            in if d1 = [] then None
               else (case r2 of
                       [] \<Rightarrow> None
                     | c # r3 \<Rightarrow>
                         if c \<noteq> CHR '','' then None
                         else (let d2 = takeWhile is_digit r3; r4 = dropWhile is_digit r3
                               in if d2 = [] then None
                                  else (case r4 of
                                          [] \<Rightarrow> None
                                        | c' # _ \<Rightarrow>
                                            if c' = CHR '')''
                                            then Some (int_of_digits d1, int_of_digits d2)
                                            else None)))))"

subsection \<open>\<^verbatim>\<open>generate_dummy_data\<close>: one field, one record, all records\<close>

definition store :: "pyrecord \<Rightarrow> pyval \<Rightarrow> genval \<Rightarrow> rng \<Rightarrow> error + (pyrecord \<times> rng)" where
  "store r k v g = (case setitem r k v of Inl e \<Rightarrow> Inl e | Inr r' \<Rightarrow> Inr (r', g))"

text \<open>The chain of comparisons of \<open>doc\<close> for a field of type \<^verbatim>\<open>'string'\<close>.\<close>

definition string_value :: "collaborators \<Rightarrow> string \<Rightarrow> rng \<Rightarrow> string \<times> rng" where
  "string_value c doc g =
     (if doc = ''email'' then fake_email c g
      else if doc = ''name'' then fake_name c g
      else if doc = ''address'' then fake_address c g
      else if doc = ''postcode'' then fake_postcode c g
      else if doc = ''credit_card_number'' then fake_credit_card_number c g
      else if doc = ''timestamp_ntz'' then fake_date_time_isoformat c g
      else if doc = ''date'' then fake_date c g
      else fake_word c g)"

text \<open>The branch of a field of type \<^verbatim>\<open>'double'\<close>.\<close>

definition double_value :: "string \<Rightarrow> rng \<Rightarrow> error + (real option \<times> rng)" where
  "double_value doc g =
     (if startswith ''number('' doc
      then (case parse_number_format doc of
              None \<Rightarrow> Inr (None, g)
            | Some (precision, scale) \<Rightarrow>
                (case max_value_of precision scale of
                   Inl e \<Rightarrow> Inl e
                 | Inr max_value \<Rightarrow>
                     (case uniform (NInt 0) max_value g of
                        (Inl e, g') \<Rightarrow> Inl e
                      | (Inr x, g') \<Rightarrow> Inr (Some (py_round x scale), g'))))
      else (case uniform (NInt 0) (NInt 99999999) g of
              (Inl e, g') \<Rightarrow> Inl e
            | (Inr x, g') \<Rightarrow> Inr (Some (py_round x 2), g')))"

text \<open>The body of the loop over the fields: it takes the record and returns it updated.\<close>

definition gen_field :: "collaborators \<Rightarrow> pyval \<Rightarrow> pyrecord \<times> rng \<Rightarrow> error + (pyrecord \<times> rng)" where
  "gen_field c field rg =
     (let (r, g) = rg in
      case subscript field ''name'' of
        Inl e \<Rightarrow> Inl e
      | Inr field_name \<Rightarrow>
      (case subscript field ''type'' of
        Inl e \<Rightarrow> Inl e
      | Inr field_type \<Rightarrow>
      (case get_doc_lower field of
        Inl e \<Rightarrow> Inl e
      | Inr doc \<Rightarrow>
      (case handle_complex_type field g of
        Inl e \<Rightarrow> Inl e
      | Inr (Some complex_value, g1) \<Rightarrow> store r field_name (VStr complex_value) g1
      | Inr (None, g1) \<Rightarrow>
          if field_type = PStr ''int''
          then (let (i, g2) = randint 0 999999 g1 in store r field_name (VInt i) g2)
          else if field_type = PStr ''string''
          then (let (s, g2) = string_value c doc g1 in store r field_name (VStr s) g2)
          else if field_type = PStr ''double''
          then (case double_value doc g1 of
                  Inl e \<Rightarrow> Inl e
                | Inr (None, g2) \<Rightarrow> Inr (r, g2)
                | Inr (Some x, g2) \<Rightarrow> store r field_name (VFloat x) g2)
          else Inr (r, g1)))))"

fun visit_fields :: "collaborators \<Rightarrow> pyval list \<Rightarrow> pyrecord \<times> rng \<Rightarrow> error + (pyrecord \<times> rng)" where
  "visit_fields c [] rg = Inr rg"
| "visit_fields c (field # rest) rg =
     (case gen_field c field rg of Inl e \<Rightarrow> Inl e | Inr rg' \<Rightarrow> visit_fields c rest rg')"

text \<open>One pass of the outer loop: an empty record, then every field of \<^verbatim>\<open>schema['fields']\<close>.\<close>

definition build_record :: "collaborators \<Rightarrow> pyval \<Rightarrow> rng \<Rightarrow> error + (pyrecord \<times> rng)" where
  "build_record c schema g =
     (case subscript schema ''fields'' of
        Inl e \<Rightarrow> Inl e
      | Inr fs \<Rightarrow> (case py_iter fs of Inl e \<Rightarrow> Inl e | Inr field_list \<Rightarrow> visit_fields c field_list ([], g)))"

text \<open>
  The outer loop writes one line per record. An exception leaves the loop; what was
  written before stays in the file.
\<close>

fun write_records ::
  "collaborators \<Rightarrow> pyval \<Rightarrow> nat \<Rightarrow> string \<times> rng \<Rightarrow> error option \<times> string \<times> rng" where
  "write_records c schema 0 bg = (None, bg)"
| "write_records c schema (Suc n) bg =
     (case build_record c schema (snd bg) of
        Inl e \<Rightarrow> (Some e, bg)
      | Inr (r, g') \<Rightarrow>
          write_records c schema n (fst bg @ json_dumps (float_repr c) r @ [newline], g'))"

text \<open>
  The world of a run: the contents of the files, the paths that the operating system
  refuses to create or to open for writing (the empty path is one of them on every
  system), what was printed, and the random source. \<^verbatim>\<open>os.makedirs\<close> and \<^verbatim>\<open>open\<close> raise
  an \<^verbatim>\<open>OSError\<close> on a refused path; directories are not recorded.
\<close>

record world =
  files :: "string \<Rightarrow> string option"
  denied :: "string list"
  stdout :: "string list"
  rand :: rng

definition output_path :: "string \<Rightarrow> int \<Rightarrow> string \<Rightarrow> string" where
  "output_path output_folder num_records schema_name =
     path_join output_folder (str_int num_records @ ''_'' @ schema_name @ ''.jsonl'')"

definition generate_dummy_data ::
  "collaborators \<Rightarrow> pyval \<Rightarrow> int \<Rightarrow> string \<Rightarrow> string \<Rightarrow> world \<Rightarrow> error option \<times> world" where
  "generate_dummy_data c schema num_records output_folder schema_name w =
     (if output_folder \<in> set (denied w) then (Some OSError, w)
      else (let output_file = output_path output_folder num_records schema_name
            in if output_file \<in> set (denied w) then (Some OSError, w)
               else (let (err, buf, g) = write_records c schema (nat num_records) ([], rand w);
                         w' = w\<lparr>files := (files w)(output_file \<mapsto> buf), rand := g\<rparr>
                     in case err of
                          Some e \<Rightarrow> (Some e, w')
                        | None \<Rightarrow> (None, w'\<lparr>stdout := stdout w' @ [''Dataset saved to '' @ output_file]\<rparr>))))"

section \<open>Schemas of the specification and sample inputs\<close>



fun absent_or_text :: "pyval option \<Rightarrow> bool" where
  "absent_or_text None = True"
| "absent_or_text (Some (PStr s)) = True"
| "absent_or_text _ = False"

definition doc_is_text :: "(string \<times> pyval) list \<Rightarrow> bool" where
  "doc_is_text kvs = absent_or_text (map_of kvs ''doc'')"




fun field_list :: "pyval \<Rightarrow> pyval list option" where
  "field_list (PDict kvs) =
     (case map_of kvs ''fields'' of Some (PList fs) \<Rightarrow> Some fs | _ \<Rightarrow> None)"
| "field_list _ = None"





text \<open>
  The pattern \<open>number(<precision>,<scale>)\<close> in the words of the specification: the
  annotation is \<open>number(\<close>, a non-empty run of digits, a comma, a non-empty run of digits
  and a closing parenthesis, followed by anything.
\<close>

definition number_pattern :: "string \<Rightarrow> string \<Rightarrow> string \<Rightarrow> string \<Rightarrow> bool" where
  "number_pattern doc d1 d2 rest =
     (d1 \<noteq> [] \<and> d2 \<noteq> [] \<and> list_all is_digit d1 \<and> list_all is_digit d2
      \<and> doc = ''number('' @ d1 @ '','' @ d2 @ '')'' @ rest)"

text \<open>
  The binary64 numbers: an integer of at most 53 bits times a power of two whose exponent
  is at least \<open>-1074\<close>. The range is not bounded above here.
\<close>

definition is_binary64 :: "real \<Rightarrow> bool" where
  "is_binary64 z = (\<exists>m k. z = of_int m * 2 powi k \<and> \<bar>m\<bar> \<le> 2 ^ 53 \<and> - 1074 \<le> k)"




text \<open>The names that the field definitions of a schema declare, in schema order.\<close>

definition field_names :: "pyval list \<Rightarrow> pyval list" where
  "field_names fs = concat (map (\<lambda>f. case subscript f ''name'' of Inr nm \<Rightarrow> [nm] | Inl e \<Rightarrow> []) fs)"

definition declared_names :: "pyval \<Rightarrow> pyval list" where
  "declared_names schema =
     (case subscript schema ''fields'' of
        Inl e \<Rightarrow> []
      | Inr fs \<Rightarrow> (case py_iter fs of Inl e \<Rightarrow> [] | Inr fl \<Rightarrow> field_names fl))"


text \<open>The world after a run that wrote no record to the file \<open>p\<close> and reported it.\<close>

definition saved_empty :: "world \<Rightarrow> string \<Rightarrow> world" where
  "saved_empty w p = w\<lparr>files := (files w)(p \<mapsto> []), stdout := stdout w @ [''Dataset saved to '' @ p]\<rparr>"

text \<open>
  Sample inputs: a random source that returns the same number at every draw, collaborators
  that return fixed strings (the address has two lines, as the addresses of Faker have),
  a world without files that refuses the empty path only, and the schema of the example scenario of the specification.
\<close>

definition fixed_rng :: "nat \<Rightarrow> rng" where
  "fixed_rng k = \<lparr>entropy = (\<lambda>i. k), pos = 0\<rparr>"

definition plain_collaborators :: collaborators where
  "plain_collaborators =
     \<lparr>fake_email = (\<lambda>g. (''a@b.example'', snd (draw g))),
      fake_name = (\<lambda>g. (''Ann Lee'', snd (draw g))),
      fake_address = (\<lambda>g. (''1 Main St'' @ [newline] @ ''Springfield'', snd (draw g))),
      fake_postcode = (\<lambda>g. (''12345'', snd (draw g))),
      fake_credit_card_number = (\<lambda>g. (''4111111111111111'', snd (draw g))),
      fake_date_time_isoformat = (\<lambda>g. (''2001-02-03T04:05:06'', snd (draw g))),
      fake_date = (\<lambda>g. (''2001-02-03'', snd (draw g))),
      fake_word = (\<lambda>g. (''word'', snd (draw g))),
      float_repr = (\<lambda>x. ''<float>'')\<rparr>"

definition fresh_world :: world where
  "fresh_world = \<lparr>files = (\<lambda>p. None), denied = [[]], stdout = [], rand = fixed_rng 0\<rparr>"

definition example_schema :: pyval where
  "example_schema =
     PDict [(''fields'', PList [PDict [(''name'', PStr ''id''), (''type'', PStr ''int'')],
                                PDict [(''name'', PStr ''email''), (''type'', PStr ''string''),
                                       (''doc'', PStr ''EMAIL'')]])]"

section \<open>Properties\<close>

subsection \<open>Dictionaries, fields and the random source\<close>



lemma absent_or_text_iff: "absent_or_text x \<longleftrightarrow> x = None \<or> (\<exists>s. x = Some (PStr s))"
  by (cases x rule: absent_or_text.cases) simp_all

lemma get_doc_lower_text:
  "doc_is_text kvs \<Longrightarrow> \<exists>doc. get_doc_lower (PDict kvs) = Inr doc"
  by (auto simp: doc_is_text_def absent_or_text_iff)




lemma getitem_assign_same: "getitem (assign r k v) k = Some v"
  by (induction r) auto


lemma keys_assign: "fst ` set (assign r k v) \<subseteq> insert k (fst ` set r)"
proof (induction r)
  case Nil
  then show ?case by simp
next
  case (Cons kv r)
  obtain k' v' where kv: "kv = (k', v')" by (cases kv)
  show ?case
    using Cons.IH by (auto simp: kv)
qed

lemma store_hashable:
  "hashable k \<Longrightarrow> store r k v g = Inr (assign r k v, g)"
  by (simp add: store_def setitem_def)

lemma randbelow_less: "0 < n \<Longrightarrow> fst (randbelow n g) < n"
  by (simp add: randbelow_def draw_def)

lemma randint_range:
  "a \<le> b \<Longrightarrow> a \<le> fst (randint a b g) \<and> fst (randint a b g) \<le> b"
proof -
  assume ab: "a \<le> b"
  define e where "e = entropy g (pos g)"
  have v: "fst (randint a b g) = a + int (e mod nat (b - a + 1))"
    by (simp add: randint_def randbelow_def draw_def e_def)
  have "0 < nat (b - a + 1)" using ab by simp
  then have "e mod nat (b - a + 1) < nat (b - a + 1)" by simp
  then have "int (e mod nat (b - a + 1)) < b - a + 1" using ab by linarith
  then show ?thesis using v by simp
qed

lemma random_range: "0 \<le> fst (random g) \<and> fst (random g) \<le> 1 - 1 / 2 ^ 53"
proof -
  define k where "k = fst (randbelow (2 ^ 53) g)"
  have "k < 2 ^ 53"
    unfolding k_def by (rule randbelow_less) simp
  then have "k + 1 \<le> 2 ^ 53" by simp
  then have "real (k + 1) \<le> real (2 ^ 53)" by (simp only: of_nat_le_iff)
  then have "real k \<le> 2 ^ 53 - 1" by simp
  then have "real k / 2 ^ 53 \<le> (2 ^ 53 - 1) / 2 ^ 53"
    by (rule divide_right_mono) simp
  moreover have "fst (random g) = real k / 2 ^ 53"
    by (simp add: random_def split_def Let_def k_def)
  ultimately show ?thesis
    by (simp add: diff_divide_distrib)
qed

lemma handle_complex_primitive:
  "map_of kvs ''type'' = Some (PStr t) \<Longrightarrow> handle_complex_type (PDict kvs) g = Inr (None, g)"
  by (simp add: handle_complex_type_def)

subsection \<open>Rounding to the nearest integer\<close>

lemma rhe_nonneg: "0 \<le> x \<Longrightarrow> 0 \<le> round_half_even x"
  by (simp add: round_half_even_def Let_def)

lemma rhe_le_int:
  assumes "x \<le> of_int K"
  shows "round_half_even x \<le> K"
proof (cases "\<lfloor>x\<rfloor> < K")
  case True
  then show ?thesis by (simp add: round_half_even_def Let_def)
next
  case False
  then have "of_int K \<le> x" by (simp add: not_less le_floor_iff)
  with assms have "x = of_int K" by simp
  then show ?thesis by (simp add: round_half_even_def Let_def)
qed

lemma rhe_ge_int:
  assumes "of_int K \<le> x"
  shows "K \<le> round_half_even x"
proof -
  have "K \<le> \<lfloor>x\<rfloor>" using assms by (simp add: le_floor_iff)
  then show ?thesis by (simp add: round_half_even_def Let_def)
qed

lemma rhe_of_int: "round_half_even (of_int n) = n"
  by (simp add: round_half_even_def)

lemma rhe_close: "\<bar>of_int (round_half_even x) - x\<bar> \<le> 1 / 2"
  by (simp add: round_half_even_def Let_def abs_if; linarith)

lemma rhe_nearest: "\<bar>of_int (round_half_even t) - t\<bar> \<le> \<bar>of_int n - t\<bar>"
proof (cases "n = round_half_even t")
  case True
  then show ?thesis by simp
next
  case False
  then have "1 \<le> \<bar>n - round_half_even t\<bar>" by linarith
  then have "(of_int 1 :: real) \<le> of_int \<bar>n - round_half_even t\<bar>"
    by (simp only: of_int_le_iff)
  then have "(1::real) \<le> \<bar>of_int n - of_int (round_half_even t)\<bar>"
    by simp
  then show ?thesis using rhe_close [of t] by linarith
qed

lemma rhe_abs_le:
  assumes "\<bar>t\<bar> \<le> of_int K"
  shows "\<bar>round_half_even t\<bar> \<le> K"
proof -
  have "t \<le> of_int K" and "of_int (- K) \<le> t" using assms by (simp_all add: abs_le_iff)
  then have "round_half_even t \<le> K" and "- K \<le> round_half_even t"
    using rhe_le_int rhe_ge_int by blast+
  then show ?thesis by simp
qed

subsection \<open>Rounding to binary64: nearest, monotone, exact on binary64 numbers\<close>

lemma exponent_bounds:
  assumes "x \<noteq> 0"
  shows "2 powi exponent x \<le> \<bar>x\<bar> \<and> \<bar>x\<bar> < 2 powi (exponent x + 1)"
proof (cases "1 \<le> \<bar>x\<bar>")
  case True
  define n where "n = \<lfloor>\<bar>x\<bar>\<rfloor>"
  have n1: "1 \<le> n" using True by (simp add: n_def le_floor_iff)
  have e: "exponent x = bitlen n - 1" using True by (simp add: exponent_def n_def)
  have b: "2 ^ nat (bitlen n - 1) \<le> n" "n < 2 ^ nat (bitlen n)"
    using bitlen_bounds [of n] n1 by simp_all
  have bl: "1 \<le> bitlen n" using n1 by (simp add: bitlen_alt_def)
  have "(2::real) powi (bitlen n - 1) = 2 ^ nat (bitlen n - 1)"
    using bl by (simp add: power_int_nonneg_exp)
  also have "\<dots> \<le> of_int n"
  proof -
    have "(of_int (2 ^ nat (bitlen n - 1)) :: real) \<le> of_int n"
      using b(1) by (simp only: of_int_le_iff)
    then show ?thesis by simp
  qed
  also have "\<dots> \<le> \<bar>x\<bar>" by (simp add: n_def)
  finally have lo: "2 powi exponent x \<le> \<bar>x\<bar>" by (simp add: e)
  have "n + 1 \<le> 2 ^ nat (bitlen n)" using b(2) by simp
  then have "(of_int (n + 1) :: real) \<le> of_int (2 ^ nat (bitlen n))"
    by (simp only: of_int_le_iff)
  then have "(of_int (n + 1) :: real) \<le> 2 ^ nat (bitlen n)"
    by simp
  moreover have "\<bar>x\<bar> < of_int (n + 1)" by (simp add: n_def)
  moreover have "(2::real) powi (bitlen n - 1 + 1) = 2 ^ nat (bitlen n)"
    using bl by (simp add: power_int_nonneg_exp)
  ultimately have "\<bar>x\<bar> < 2 powi (exponent x + 1)" by (simp add: e)
  with lo show ?thesis by simp
next
  case False
  define a where "a = \<bar>x\<bar>"
  have a: "0 < a" "a < 1" using assms False by (simp_all add: a_def)
  define c where "c = \<lceil>1 / a\<rceil>"
  define j where "j = bitlen (c - 1)"
  have inv: "1 < 1 / a" using a by simp
  then have c2: "2 \<le> c" unfolding c_def by linarith
  have e: "exponent x = - j" using False by (simp add: exponent_def c_def j_def a_def)
  have b: "2 ^ nat (j - 1) \<le> c - 1" "c - 1 < 2 ^ nat j"
    using bitlen_bounds [of "c - 1"] c2 by (simp_all add: j_def)
  have j1: "1 \<le> j" using c2 by (simp add: j_def bitlen_alt_def)
  have "1 / a \<le> of_int c" by (simp add: c_def)
  also have "(of_int c :: real) \<le> 2 ^ nat j"
  proof -
    have "c \<le> 2 ^ nat j" using b(2) by simp
    then have "(of_int c :: real) \<le> of_int (2 ^ nat j)"
      by (simp only: of_int_le_iff)
    then show ?thesis by simp
  qed
  finally have "1 / a \<le> 2 ^ nat j" .
  then have "1 / 2 ^ nat j \<le> a"
    using a by (simp add: field_simps)
  moreover have "(2::real) powi (- j) = 1 / 2 ^ nat j"
    using j1 by (simp add: power_int_minus_divide power_int_nonneg_exp)
  ultimately have lo: "2 powi exponent x \<le> \<bar>x\<bar>" by (simp add: e a_def)
  have "(of_int (c - 1) :: real) < 1 / a" unfolding c_def by linarith
  moreover have "(2::real) ^ nat (j - 1) \<le> of_int (c - 1)"
  proof -
    have "(of_int (2 ^ nat (j - 1)) :: real) \<le> of_int (c - 1)"
      using b(1) by (simp only: of_int_le_iff)
    then show ?thesis by simp
  qed
  ultimately have "(2::real) ^ nat (j - 1) < 1 / a" by linarith
  then have "a < 1 / 2 ^ nat (j - 1)"
    using a by (simp add: field_simps)
  moreover have "(2::real) powi (- j + 1) = 1 / 2 ^ nat (j - 1)"
  proof -
    have "- j + 1 = - (j - 1)" by simp
    then show ?thesis
      using j1 by (simp only: power_int_minus_divide) (simp add: power_int_nonneg_exp)
  qed
  ultimately have "\<bar>x\<bar> < 2 powi (exponent x + 1)" by (simp add: e a_def)
  with lo show ?thesis by simp
qed

lemma ulp_exponent_ge: "- 1074 \<le> ulp_exponent x"
  by (simp add: ulp_exponent_def)

lemma pow2_pos: "(0::real) < 2 powi k"
  by simp

lemma pow2_add: "(2::real) powi (a + b) = 2 powi a * 2 powi b"
  by (simp add: power_int_add)

lemma pow2_mono: "a \<le> b \<Longrightarrow> (2::real) powi a \<le> 2 powi b"
  by (simp add: power_int_increasing)

lemma binary64_zero: "binary64 0 = 0"
  by (simp add: binary64_def)

lemma binary64_scaled:
  "x \<noteq> 0 \<Longrightarrow> binary64 x = of_int (round_half_even (x / 2 powi ulp_exponent x)) * 2 powi ulp_exponent x"
  by (simp add: binary64_def)

lemma mantissa_bound:
  assumes "x \<noteq> 0"
  shows "\<bar>x / 2 powi ulp_exponent x\<bar> \<le> 2 ^ 53"
proof -
  define q where "q = ulp_exponent x"
  have "exponent x + 1 \<le> q + 53" by (simp add: q_def ulp_exponent_def)
  then have "(2::real) powi (exponent x + 1) \<le> 2 powi (q + 53)" by (rule pow2_mono)
  then have "\<bar>x\<bar> \<le> 2 powi (q + 53)"
    using exponent_bounds [OF assms] by linarith
  also have "\<dots> = 2 powi q * 2 ^ 53" by (simp add: pow2_add)
  finally have "\<bar>x\<bar> / 2 powi q \<le> 2 ^ 53"
    by (simp add: field_simps)
  then show ?thesis by (simp add: q_def)
qed

lemma binary64_is_binary64: "is_binary64 (binary64 x)"
proof (cases "x = 0")
  case True
  have "(0::real) = of_int 0 * 2 powi 0" by simp
  then show ?thesis
    unfolding True binary64_zero is_binary64_def by (metis abs_zero zero_le_numeral zero_le_power neg_numeral_le_zero)
next
  case False
  have "\<bar>x / 2 powi ulp_exponent x\<bar> \<le> of_int (2 ^ 53)"
    using mantissa_bound [OF False] by simp
  then have "\<bar>round_half_even (x / 2 powi ulp_exponent x)\<bar> \<le> 2 ^ 53"
    by (rule rhe_abs_le)
  then show ?thesis
    unfolding is_binary64_def binary64_scaled [OF False]
    using ulp_exponent_ge [of x] by blast
qed

lemma grid_nearest:
  "\<bar>of_int (round_half_even (x / 2 powi q)) * 2 powi q - x\<bar> \<le> \<bar>of_int n * 2 powi q - x\<bar>"
proof -
  define t where "t = x / 2 powi q"
  have x: "x = t * 2 powi q" by (simp add: t_def)
  have "\<bar>of_int (round_half_even t) * 2 powi q - t * 2 powi q\<bar>
          = \<bar>of_int (round_half_even t) - t\<bar> * 2 powi q"
    by (simp add: abs_mult flip: left_diff_distrib)
  also have "\<dots> \<le> \<bar>of_int n - t\<bar> * 2 powi q"
    by (rule mult_right_mono [OF rhe_nearest]) simp
  also have "\<dots> = \<bar>of_int n * 2 powi q - t * 2 powi q\<bar>"
    by (simp add: abs_mult flip: left_diff_distrib)
  finally show ?thesis by (simp add: t_def)
qed

lemma binary64_nearest:
  assumes "is_binary64 z"
  shows "\<bar>binary64 x - x\<bar> \<le> \<bar>z - x\<bar>"
proof (cases "x = 0")
  case True
  then show ?thesis by (simp add: binary64_zero)
next
  case False
  define q where "q = ulp_exponent x"
  have r: "binary64 x = of_int (round_half_even (x / 2 powi q)) * 2 powi q"
    using False by (simp add: binary64_scaled q_def)
  obtain m k where z: "z = of_int m * 2 powi k" and m: "\<bar>m\<bar> \<le> 2 ^ 53" and k: "- 1074 \<le> k"
    using assms by (auto simp: is_binary64_def)
  show ?thesis
  proof (cases "q \<le> k")
    case True
    have "(2::real) powi k = 2 powi (k - q) * 2 powi q"
      by (simp flip: pow2_add)
    also have "(2::real) powi (k - q) = of_int (2 ^ nat (k - q))"
      using True by (simp add: power_int_nonneg_exp)
    finally have "z = of_int (m * 2 ^ nat (k - q)) * 2 powi q"
      by (simp add: z)
    then show ?thesis
      unfolding r using grid_nearest [of x q "m * 2 ^ nat (k - q)"] by simp
  next
    case False
    define e where "e = exponent x"
    have qe: "q = e - 52" and e1: "- 1022 < e"
      using False k by (auto simp: q_def ulp_exponent_def e_def max_def split: if_splits)
    have lo: "2 powi e \<le> \<bar>x\<bar>"
      using exponent_bounds [OF \<open>x \<noteq> 0\<close>] by (simp add: e_def)
    have "\<bar>z\<bar> = of_int \<bar>m\<bar> * 2 powi k"
      by (simp add: z abs_mult)
    also have "\<dots> \<le> of_int (2 ^ 53) * 2 powi k"
      by (rule mult_right_mono) (use m in \<open>simp_all only: of_int_le_iff zero_le_power_int zero_le_numeral\<close>)
    also have "\<dots> = 2 powi (53 + k)"
      by (simp add: pow2_add)
    also have "\<dots> \<le> 2 powi e"
      by (rule pow2_mono) (use False qe in simp)
    finally have zle: "\<bar>z\<bar> \<le> 2 powi e" .
    define n :: int where "n = (if 0 < x then 2 ^ 52 else - (2 ^ 52))"
    have g: "of_int n * (2::real) powi q = (if 0 < x then 2 powi e else - (2 powi e))"
    proof -
      have "(2::real) powi (52 + (e - 52)) = 2 powi 52 * 2 powi (e - 52)"
        by (rule pow2_add)
      then have "(2::real) powi e = 2 ^ 52 * 2 powi q"
        by (simp add: qe)
      then show ?thesis by (simp add: n_def)
    qed
    have "\<bar>of_int n * 2 powi q - x\<bar> = \<bar>x\<bar> - 2 powi e"
    proof (cases "0 < x")
      case True
      have "\<bar>2 powi e - x\<bar> = \<bar>x\<bar> - 2 powi e" using lo True by linarith
      then show ?thesis using True by (simp add: g)
    next
      case False
      have "\<bar>- (2 powi e) - x\<bar> = \<bar>x\<bar> - 2 powi e" using lo False by linarith
      then show ?thesis using False by (simp add: g)
    qed
    moreover have "\<bar>x\<bar> - 2 powi e \<le> \<bar>z - x\<bar>"
      using zle by linarith
    ultimately show ?thesis
      unfolding r using grid_nearest [of x q n] by linarith
  qed
qed

lemma binary64_fixed: "is_binary64 z \<Longrightarrow> binary64 z = z"
  using binary64_nearest [of z z] by simp

lemma binary64_idem: "binary64 (binary64 x) = binary64 x"
  by (rule binary64_fixed) (rule binary64_is_binary64)

lemma binary64_mono:
  assumes "x \<le> y"
  shows "binary64 x \<le> binary64 y"
proof (rule ccontr)
  assume "\<not> binary64 x \<le> binary64 y"
  then have lt: "binary64 y < binary64 x" by simp
  have 1: "\<bar>binary64 x - x\<bar> \<le> \<bar>binary64 y - x\<bar>"
    by (rule binary64_nearest) (rule binary64_is_binary64)
  have 2: "\<bar>binary64 y - y\<bar> \<le> \<bar>binary64 x - y\<bar>"
    by (rule binary64_nearest) (rule binary64_is_binary64)
  have "x = y" using assms lt 1 2 by linarith
  then show False using lt by simp
qed

lemma int_is_binary64: "\<bar>i\<bar> \<le> 2 ^ 53 \<Longrightarrow> is_binary64 (of_int i)"
proof -
  assume "\<bar>i\<bar> \<le> 2 ^ 53"
  moreover have "(of_int i :: real) = of_int i * 2 powi 0" by simp
  ultimately show ?thesis
    unfolding is_binary64_def by (metis neg_numeral_le_zero)
qed

lemma binary64_of_int: "\<bar>i\<bar> \<le> 2 ^ 53 \<Longrightarrow> binary64 (of_int i) = of_int i"
  by (rule binary64_fixed) (rule int_is_binary64)

lemma binary64_nonneg: "0 \<le> x \<Longrightarrow> 0 \<le> binary64 x"
  using binary64_mono [of 0 x] by (simp add: binary64_zero)

lemma large_binary64_is_int:
  assumes "is_binary64 y" and "2 ^ 53 \<le> \<bar>y\<bar>"
  shows "\<exists>i::int. y = of_int i"
proof -
  obtain m k where y: "y = of_int m * 2 powi k" and m: "\<bar>m\<bar> \<le> 2 ^ 53"
    using assms(1) by (auto simp: is_binary64_def)
  have mr: "\<bar>of_int m :: real\<bar> \<le> 2 ^ 53"
  proof -
    have "(of_int \<bar>m\<bar> :: real) \<le> of_int (2 ^ 53)" using m by (simp only: of_int_le_iff)
    then show ?thesis by simp
  qed
  have "0 \<le> k"
  proof (rule ccontr)
    assume "\<not> 0 \<le> k"
    then have "k < 0" by simp
    then have "(2::real) powi k < 2 powi 0" by (intro power_int_strict_increasing) simp_all
    then have k1: "(2::real) powi k < 1" by simp
    have m0: "of_int m \<noteq> (0::real)" using assms(2) y by auto
    have "\<bar>y\<bar> = \<bar>of_int m\<bar> * 2 powi k" by (simp add: y abs_mult)
    also have "\<dots> < \<bar>of_int m\<bar> * 1"
      by (rule mult_strict_left_mono [OF k1]) (use m0 in simp)
    finally show False using mr assms(2) by simp
  qed
  then have "y = of_int (m * 2 ^ nat k)"
    by (simp add: y power_int_nonneg_exp)
  then show ?thesis by blast
qed

lemma binary64_below:
  assumes "is_binary64 F" and "2 ^ 53 \<le> F"
  shows "\<exists>z. is_binary64 z \<and> z < F \<and> F - z < F / 2 ^ 52"
proof -
  have F0: "F \<noteq> 0" using assms(2) by auto
  have Fa: "\<bar>F\<bar> = F" using assms(2) by simp
  define e where "e = exponent F"
  have eb: "2 powi e \<le> F" "F < 2 powi (e + 1)"
    using exponent_bounds [OF F0] by (simp_all add: e_def Fa)
  have e53: "53 \<le> e"
  proof (rule ccontr)
    assume "\<not> 53 \<le> e"
    then have "e + 1 \<le> 53" by simp
    then have "(2::real) powi (e + 1) \<le> 2 powi 53" by (rule pow2_mono)
    then show False using eb(2) assms(2) by simp
  qed
  define q where "q = e - 52"
  have q: "ulp_exponent F = q" using e53 by (simp add: ulp_exponent_def e_def q_def)
  define n where "n = round_half_even (F / 2 powi q)"
  have Fn: "F = of_int n * 2 powi q"
    using binary64_fixed [OF assms(1)] binary64_scaled [OF F0] by (simp add: q n_def)
  have pe: "(2::real) powi e = 2 ^ 52 * 2 powi q"
  proof -
    have "(2::real) powi (52 + (e - 52)) = 2 powi 52 * 2 powi (e - 52)" by (rule pow2_add)
    then show ?thesis by (simp add: q_def)
  qed
  have "(2 ^ 52 :: real) * 2 powi q \<le> of_int n * 2 powi q"
    using eb(1) by (simp only: pe flip: Fn)
  then have "(of_int (2 ^ 52) :: real) \<le> of_int n" by simp
  then have n_lo: "2 ^ 52 \<le> n" by (simp only: of_int_le_iff)
  have pe1: "(2::real) powi (e + 1) = 2 ^ 53 * 2 powi q"
  proof -
    have "(2::real) powi (53 + (e - 52)) = 2 powi 53 * 2 powi (e - 52)" by (rule pow2_add)
    then show ?thesis by (simp add: q_def add.commute)
  qed
  have "of_int n * 2 powi q < (2 ^ 53 :: real) * 2 powi q"
    using eb(2) by (simp only: pe1 flip: Fn)
  then have "(of_int n :: real) < of_int (2 ^ 53)" by simp
  then have n_hi: "n < 2 ^ 53" by (simp only: of_int_less_iff)
  have q1: "1 \<le> q" using e53 by (simp add: q_def)
  show ?thesis
  proof (cases "n = 2 ^ 52")
    case False
    then have n1: "2 ^ 52 < n" using n_lo by simp
    define z where "z = of_int (n - 1) * (2::real) powi q"
    have "\<bar>n - 1\<bar> \<le> 2 ^ 53" using n_lo n_hi by simp
    then have isf: "is_binary64 z"
      unfolding is_binary64_def z_def using q1 by (intro exI [of _ "n - 1"] exI [of _ q]) simp
    have d: "F - z = 2 powi q"
      by (simp add: Fn z_def algebra_simps)
    have lt: "(2::real) powi q < F / 2 ^ 52"
    proof -
      have "(of_int (2 ^ 52) :: real) < of_int n" using n1 by (simp only: of_int_less_iff)
      then have "(2 ^ 52 :: real) * 2 powi q < of_int n * 2 powi q" by simp
      then show ?thesis by (simp add: Fn field_simps)
    qed
    have "0 < F - z" unfolding d by (rule pow2_pos)
    then have "z < F" by (simp only: diff_gt_0_iff_gt)
    moreover have "F - z < F / 2 ^ 52" unfolding d by (rule lt)
    ultimately show ?thesis using isf by blast
  next
    case True
    define p1 where "p1 = (2::real) powi (q - 1)"
    define z where "z = of_int (2 ^ 53 - 1) * p1"
    have p1: "0 < p1" unfolding p1_def by (rule pow2_pos)
    have pq: "(2::real) powi q = 2 * p1"
    proof -
      have "(2::real) powi (1 + (q - 1)) = 2 powi 1 * 2 powi (q - 1)" by (rule pow2_add)
      then show ?thesis by (simp add: p1_def)
    qed
    have isf: "is_binary64 z"
      unfolding is_binary64_def
    proof (intro exI conjI)
      show "z = of_int (2 ^ 53 - 1) * 2 powi (q - 1)" by (simp only: z_def p1_def)
      show "\<bar>2 ^ 53 - 1 :: int\<bar> \<le> 2 ^ 53" by simp
      show "- 1074 \<le> q - 1" using q1 by simp
    qed
    have F2: "F = 2 ^ 53 * p1"
      by (simp add: Fn True pq)
    have d: "F - z = p1"
      by (simp add: F2 z_def algebra_simps)
    have "z < F" using d p1 by linarith
    moreover have "F - z < F / 2 ^ 52" using p1 by (simp add: d) (simp add: F2)
    ultimately show ?thesis using isf by blast
  qed
qed

lemma binary64_strictly_below:
  assumes "is_binary64 F" and "2 ^ 53 \<le> F" and "t \<le> F * (1 - 1 / 2 ^ 53)"
  shows "binary64 t < F"
proof (rule ccontr)
  assume "\<not> binary64 t < F"
  moreover have "t \<le> F" using assms(2,3) by (simp add: algebra_simps) 
  then have "binary64 t \<le> F"
    using binary64_mono [of t F] binary64_fixed [OF assms(1)] by simp
  ultimately have eq: "binary64 t = F" by simp
  define d where "d = F / 2 ^ 52"
  obtain z where z: "is_binary64 z" "z < F" "F - z < d"
    using binary64_below [OF assms(1,2)] unfolding d_def by blast
  have "\<bar>F - t\<bar> \<le> \<bar>z - t\<bar>"
    using binary64_nearest [OF z(1), of t] by (simp add: eq)
  moreover have "d / 2 \<le> F - t"
    using assms(3) by (simp add: d_def algebra_simps)
  ultimately show False using z(2,3) by linarith
qed

lemma exponent_unique:
  assumes "x \<noteq> 0" and "2 powi e \<le> \<bar>x\<bar>" and "\<bar>x\<bar> < 2 powi (e + 1)"
  shows "exponent x = e"
proof -
  define E where "E = exponent x"
  have b: "2 powi E \<le> \<bar>x\<bar>" "\<bar>x\<bar> < 2 powi (E + 1)"
    using exponent_bounds [OF assms(1)] by (simp_all add: E_def)
  have "\<not> E < e"
  proof
    assume "E < e"
    then have "(2::real) powi (E + 1) \<le> 2 powi e" by (intro pow2_mono) simp
    then show False using b(2) assms(2) by linarith
  qed
  moreover have "\<not> e < E"
  proof
    assume "e < E"
    then have "(2::real) powi (e + 1) \<le> 2 powi E" by (intro pow2_mono) simp
    then show False using b(1) assms(3) by linarith
  qed
  ultimately show ?thesis by (simp add: E_def)
qed

lemma binary64_eval:
  assumes "x \<noteq> 0" and "2 powi e \<le> \<bar>x\<bar>" and "\<bar>x\<bar> < 2 powi (e + 1)" and "- 1022 \<le> e"
  shows "binary64 x = of_int (round_half_even (x / 2 powi (e - 52))) * 2 powi (e - 52)"
proof -
  have "ulp_exponent x = e - 52"
    using exponent_unique [OF assms(1,2,3)] assms(4) by (simp add: ulp_exponent_def)
  then show ?thesis using assms(1) by (simp add: binary64_scaled)
qed

subsection \<open>Rounding to decimal places and the uniform draw\<close>

lemma decimal_le_int:
  assumes "x \<le> of_int M"
  shows "of_int (round_half_even (x * 10 ^ n)) / 10 ^ n \<le> (of_int M :: real)"
proof -
  have "x * 10 ^ n \<le> of_int (M * 10 ^ n)"
    using assms by simp
  then have "round_half_even (x * 10 ^ n) \<le> M * 10 ^ n"
    by (rule rhe_le_int)
  then have "(of_int (round_half_even (x * 10 ^ n)) :: real) \<le> of_int (M * 10 ^ n)"
    by (simp only: of_int_le_iff)
  then show ?thesis
    by (simp add: divide_le_eq)
qed

lemma decimal_close:
  "\<bar>of_int (round_half_even (x * 10 ^ n)) / 10 ^ n - x\<bar> \<le> 1 / (2 * 10 ^ n)"
proof -
  have "of_int (round_half_even (x * 10 ^ n)) / 10 ^ n - x
          = (of_int (round_half_even (x * 10 ^ n)) - x * 10 ^ n) / 10 ^ n"
    by (simp add: diff_divide_distrib)
  then have "\<bar>of_int (round_half_even (x * 10 ^ n)) / 10 ^ n - x\<bar>
          = \<bar>of_int (round_half_even (x * 10 ^ n)) - x * 10 ^ n\<bar> / 10 ^ n"
    by simp
  also have "\<dots> \<le> (1 / 2) / 10 ^ n"
    by (rule divide_right_mono [OF rhe_close]) simp
  finally show ?thesis by simp
qed

lemma py_round_nonneg: "0 \<le> x \<Longrightarrow> 0 \<le> py_round x n"
  by (simp add: py_round_def rhe_nonneg binary64_nonneg)

lemma py_round_le_int:
  assumes "is_binary64 y" and "0 \<le> y" and "y \<le> of_int M"
  shows "py_round y n \<le> of_int M"
proof (cases "2 ^ 53 \<le> y")
  case True
  then obtain i :: int where i: "y = of_int i"
    using large_binary64_is_int [OF assms(1)] assms(2) by auto
  have "y * 10 ^ n = of_int (i * 10 ^ n)" by (simp add: i)
  then have "round_half_even (y * 10 ^ n) = i * 10 ^ n"
    by (simp only: rhe_of_int)
  then have "py_round y n = binary64 y"
    by (simp add: py_round_def i)
  then show ?thesis
    using assms(1,3) by (simp add: binary64_fixed)
next
  case False
  define K :: int where "K = min M (2 ^ 53)"
  have M0: "0 \<le> M"
  proof -
    have "(of_int 0 :: real) \<le> of_int M" using assms(2,3) by simp
    then show ?thesis by (simp only: of_int_le_iff)
  qed
  have K: "0 \<le> K" "K \<le> 2 ^ 53" "K \<le> M" using M0 by (simp_all add: K_def)
  have "y \<le> of_int K" using assms(3) False by (simp add: K_def min_def)
  then have "of_int (round_half_even (y * 10 ^ n)) / 10 ^ n \<le> (of_int K :: real)"
    by (rule decimal_le_int)
  then have "py_round y n \<le> binary64 (of_int K)"
    unfolding py_round_def by (rule binary64_mono)
  also have "binary64 (of_int K) = of_int K"
    by (rule binary64_of_int) (use K in simp)
  also have "(of_int K :: real) \<le> of_int M"
    using K(3) by (simp only: of_int_le_iff)
  finally show ?thesis .
qed

lemma uniform_int_range:
  assumes "0 \<le> M" and "M < 2 ^ 1024 - 2 ^ 970"
  shows "\<exists>y g'. uniform (NInt 0) (NInt M) g = (Inr y, g')
           \<and> is_binary64 y \<and> 0 \<le> y \<and> y \<le> of_int M"
proof -
  obtain u g' where r: "random g = (u, g')" by (cases "random g")
  have u: "0 \<le> u" "u \<le> 1 - 1 / 2 ^ 53" using random_range [of g] r by simp_all
  define F where "F = binary64 (of_int M)"
  define y where "y = binary64 (F * u)"
  have F0: "0 \<le> F" unfolding F_def using assms(1) by (intro binary64_nonneg) simp
  have Ff: "is_binary64 F" unfolding F_def by (rule binary64_is_binary64)
  have yf: "is_binary64 y" unfolding y_def by (rule binary64_is_binary64)
  have "uniform (NInt 0) (NInt M) g = (Inr (binary64 (0 + binary64 (F * u))), g')"
    using assms r by (simp add: uniform_def int_to_float_def binary64_zero F_def)
  then have un: "uniform (NInt 0) (NInt M) g = (Inr y, g')"
    by (simp add: y_def binary64_idem)
  have y0: "0 \<le> y" unfolding y_def using F0 u(1) by (intro binary64_nonneg) simp
  have t: "F * u \<le> F * (1 - 1 / 2 ^ 53)"
    using F0 u(2) by (rule mult_left_mono [rotated])
  have tF: "F * u \<le> F"
    using F0 u by (simp add: mult_left_le)
  have yF: "y \<le> F"
    unfolding y_def using binary64_mono [OF tF] binary64_fixed [OF Ff] by simp
  have "y \<le> of_int M"
  proof (cases "M \<le> 2 ^ 53")
    case True
    then have "F = of_int M"
      unfolding F_def using assms(1) by (intro binary64_of_int) simp
    then show ?thesis using yF by simp
  next
    case False
    then have "2 ^ 53 \<le> M" by simp
    then have "(of_int (2 ^ 53) :: real) \<le> of_int M" by (simp only: of_int_le_iff)
    then have "binary64 (of_int (2 ^ 53)) \<le> F"
      unfolding F_def by (rule binary64_mono)
    moreover have "binary64 (of_int (2 ^ 53)) = of_int (2 ^ 53)"
      by (rule binary64_of_int) simp
    ultimately have "2 ^ 53 \<le> F" by simp
    then have lt: "y < F"
      unfolding y_def using t by (intro binary64_strictly_below [OF Ff])
    have "\<bar>F - of_int M\<bar> \<le> \<bar>y - of_int M\<bar>"
      unfolding F_def by (rule binary64_nearest [OF yf])
    then show ?thesis using lt by linarith
  qed
  then show ?thesis using un yf y0 by blast
qed

lemma pow10_representable:
  assumes "k \<le> 308"
  shows "(10::int) ^ k - 1 < 2 ^ 1024 - 2 ^ 970"
proof -
  have "(10::int) ^ k \<le> 10 ^ 308"
    by (rule power_increasing [OF assms]) simp
  also have "\<dots> < 2 ^ 1024 - 2 ^ 970" by simp
  finally show ?thesis by simp
qed




lemma parse_startswith:
  "parse_number_format doc = Some ps \<Longrightarrow> startswith ''number('' doc"
  by (auto simp: parse_number_format_def split: if_splits)

subsection \<open>The parser accepts exactly the pattern of the specification\<close>

lemma takeWhile_digits:
  "list_all is_digit ds \<Longrightarrow> \<not> is_digit c \<Longrightarrow> takeWhile is_digit (ds @ c # rest) = ds"
  by (induction ds) simp_all

lemma dropWhile_digits:
  "list_all is_digit ds \<Longrightarrow> \<not> is_digit c \<Longrightarrow> dropWhile is_digit (ds @ c # rest) = c # rest"
  by (induction ds) simp_all

lemma comma_paren_not_digit: "\<not> is_digit (CHR '','')" "\<not> is_digit (CHR '')'')"
  by (simp_all add: is_digit_def)

lemma parse_of_pattern:
  assumes "number_pattern doc d1 d2 rest"
  shows "parse_number_format doc = Some (int_of_digits d1, int_of_digits d2)"
proof -
  have doc: "doc = ''number('' @ d1 @ CHR '','' # d2 @ CHR '')'' # rest"
    and d1: "d1 \<noteq> []" "list_all is_digit d1" and d2: "d2 \<noteq> []" "list_all is_digit d2"
    using assms by (simp_all add: number_pattern_def)
  have s: "startswith ''number('' doc" by (simp add: doc startswith_def)
  have r1: "drop 7 doc = d1 @ CHR '','' # d2 @ CHR '')'' # rest" by (simp add: doc)
  show ?thesis
    using s d1 d2
    by (simp add: parse_number_format_def r1 takeWhile_digits dropWhile_digits
        comma_paren_not_digit Let_def)
qed

lemma pattern_of_parse:
  assumes "parse_number_format doc = Some (p, s)"
  shows "\<exists>d1 d2 rest. number_pattern doc d1 d2 rest \<and> p = int_of_digits d1 \<and> s = int_of_digits d2"
proof -
  define r1 where "r1 = drop 7 doc"
  define d1 where "d1 = takeWhile is_digit r1"
  define r2 where "r2 = dropWhile is_digit r1"
  have sw: "startswith ''number('' doc"
    using assms by (cases "startswith ''number('' doc") (simp_all add: parse_number_format_def)
  have len: "length ''number('' = 7" by simp
  have "take (length ''number('') doc = ''number(''"
    using sw by (simp only: startswith_def)
  then have "take 7 doc = ''number(''"
    by (simp only: len)
  then have doc: "doc = ''number('' @ r1"
    using append_take_drop_id [of 7 doc] by (simp add: r1_def)
  have e1: "parse_number_format doc =
      (if d1 = [] then None
       else (case r2 of [] \<Rightarrow> None
             | c # r3 \<Rightarrow>
                 if c \<noteq> CHR '','' then None
                 else (let d2 = takeWhile is_digit r3; r4 = dropWhile is_digit r3
                       in if d2 = [] then None
                          else (case r4 of [] \<Rightarrow> None
                                | c' # _ \<Rightarrow>
                                    if c' = CHR '')''
                                    then Some (int_of_digits d1, int_of_digits d2)
                                    else None))))"
    unfolding parse_number_format_def Let_def d1_def r1_def r2_def using sw by simp
  have d1: "d1 \<noteq> []"
    using assms e1 by (cases "d1 = []") simp_all
  obtain c r3 where r2: "r2 = c # r3"
    using assms e1 d1 by (cases r2) simp_all
  have c: "c = CHR '',''"
    using assms e1 d1 r2 by (cases "c = CHR '',''") simp_all
  define d2 where "d2 = takeWhile is_digit r3"
  define r4 where "r4 = dropWhile is_digit r3"
  have e2: "parse_number_format doc =
      (if d2 = [] then None
       else (case r4 of [] \<Rightarrow> None
             | c' # _ \<Rightarrow>
                 if c' = CHR '')'' then Some (int_of_digits d1, int_of_digits d2) else None))"
    unfolding d2_def r4_def using e1 d1 r2 c by (simp add: Let_def)
  have d2: "d2 \<noteq> []"
    using assms e2 by (cases "d2 = []") simp_all
  obtain c' rest where r4: "r4 = c' # rest"
    using assms e2 d2 by (cases r4) simp_all
  have c': "c' = CHR '')''"
    using assms e2 d2 r4 by (cases "c' = CHR '')''") simp_all
  have ps: "p = int_of_digits d1 \<and> s = int_of_digits d2"
    using assms e2 d2 r4 c' by simp
  have "r1 = d1 @ r2" by (simp add: d1_def r2_def)
  moreover have "r3 = d2 @ r4" by (simp add: d2_def r4_def)
  ultimately have "doc = ''number('' @ d1 @ '','' @ d2 @ '')'' @ rest"
    using doc r2 c r4 c' by simp
  moreover have "list_all is_digit d1" and "list_all is_digit d2"
    by (auto simp: d1_def d2_def list_all_iff dest: set_takeWhileD)
  ultimately have "number_pattern doc d1 d2 rest"
    using d1 d2 by (simp add: number_pattern_def)
  then show ?thesis using ps by blast
qed

lemma parse_number_format_matches:
  "parse_number_format doc \<noteq> None \<longleftrightarrow> (\<exists>ds1 ds2 rest. number_pattern doc ds1 ds2 rest)"
proof
  assume "parse_number_format doc \<noteq> None"
  then obtain p s where "parse_number_format doc = Some (p, s)" by auto
  then show "\<exists>ds1 ds2 rest. number_pattern doc ds1 ds2 rest"
    using pattern_of_parse by blast
next
  assume "\<exists>ds1 ds2 rest. number_pattern doc ds1 ds2 rest"
  then show "parse_number_format doc \<noteq> None"
    using parse_of_pattern by fastforce
qed


subsection \<open>Every valid field, record and run succeeds\<close>




subsection \<open>The serializer never prints a newline\<close>











subsection \<open>Random strings of letters\<close>





subsection \<open>What one step of the loop over the fields does to the record\<close>

lemma gen_field_effect:
  assumes "gen_field c f (r, g) = Inr (r', g')"
  shows "r' = r \<or> (\<exists>nm v. subscript f ''name'' = Inr nm \<and> hashable nm \<and> r' = assign r nm v)"
proof -
  obtain nm where nm: "subscript f ''name'' = Inr nm"
    using assms by (cases "subscript f ''name''") (simp_all add: gen_field_def)
  have st: "\<And>v g1. store r nm v g1 = Inr (r', g') \<Longrightarrow> hashable nm \<and> r' = assign r nm v"
    by (auto simp: store_def setitem_def split: if_splits)
  show ?thesis
    using assms nm st
    by (auto simp: gen_field_def split: sum.splits option.splits prod.splits if_splits)
qed

lemma gen_field_keys:
  assumes "gen_field c f (r, g) = Inr (r', g')"
  shows "fst ` set r' \<subseteq> fst ` set r \<union> set (field_names [f])"
  using gen_field_effect [OF assms] keys_assign
  by (fastforce simp: field_names_def)

lemma visit_fields_keys:
  "visit_fields c fs (r, g) = Inr (r', g') \<Longrightarrow> fst ` set r' \<subseteq> fst ` set r \<union> set (field_names fs)"
proof (induction fs arbitrary: r g)
  case Nil
  then show ?case by simp
next
  case (Cons f fs)
  obtain r1 g1 where s1: "gen_field c f (r, g) = Inr (r1, g1)"
    and s2: "visit_fields c fs (r1, g1) = Inr (r', g')"
    using Cons.prems by (auto split: sum.splits)
  have "fst ` set r1 \<subseteq> fst ` set r \<union> set (field_names [f])"
    using s1 by (rule gen_field_keys)
  moreover have "fst ` set r' \<subseteq> fst ` set r1 \<union> set (field_names fs)"
    using s2 by (rule Cons.IH)
  moreover have "field_names (f # fs) = field_names [f] @ field_names fs"
    by (simp add: field_names_def)
  ultimately show ?case by (simp only: set_append) blast
qed









subsection \<open>Two draws computed step by step\<close>

text \<open>
  The doc \<open>number(2,5)\<close> at the draw one half: the bound is the float \<open>-0.999\<close> and the
  stored value is the float \<open>-0.4995\<close>.
\<close>

lemma binary64_thousandth: "binary64 (1 / 1000) = 1152921504606847 / 1152921504606846976"
  by (subst binary64_eval [where e = "- 10"]) (simp_all add: round_half_even_def Let_def)

lemma binary64_bound: "binary64 (- (1151768583102240129 / 1152921504606846976))
    = - (8998192055486251 / 9007199254740992)"
  by (subst binary64_eval [where e = "- 1"]) (simp_all add: round_half_even_def Let_def)

lemma binary64_bound_fixed: "binary64 (- (8998192055486251 / 2 ^ 53)) = - (8998192055486251 / 2 ^ 53)"
  by (subst binary64_eval [where e = "- 1"]) (simp_all add: round_half_even_def Let_def)

lemma binary64_half_bound: "binary64 (- (8998192055486251 / 2 ^ 54)) = - (8998192055486251 / 2 ^ 54)"
  by (subst binary64_eval [where e = "- 2"]) (simp_all add: round_half_even_def Let_def)

lemma decimal_half_bound: "round_half_even (- (8998192055486251 / 2 ^ 54) * 10 ^ 5) = - 49950"
  by (simp add: round_half_even_def Let_def)

lemma binary64_decimal: "binary64 (- 49950 / 10 ^ 5) = - (8998192055486251 / 2 ^ 54)"
  by (subst binary64_eval [where e = "- 2"]) (simp_all add: round_half_even_def Let_def)

lemma max_value_2_5: "max_value_of 2 5 = Inr (NFloat (- (8998192055486251 / 9007199254740992)))"
  by (simp add: max_value_of_def int_to_float_def binary64_thousandth binary64_bound)

lemma uniform_half:
  "uniform (NInt 0) (NFloat (- (8998192055486251 / 2 ^ 53))) (fixed_rng (2 ^ 52))
     = (Inr (- (8998192055486251 / 2 ^ 54)), (fixed_rng (2 ^ 52))\<lparr>pos := 1\<rparr>)"
  using binary64_bound_fixed binary64_half_bound
  by (simp add: uniform_def int_to_float_def binary64_zero random_def randbelow_def draw_def
      fixed_rng_def)

lemma py_round_half: "py_round (- (8998192055486251 / 2 ^ 54)) 5 = - (8998192055486251 / 2 ^ 54)"
  using decimal_half_bound binary64_decimal by (simp add: py_round_def)

text \<open>
  The doc \<open>number(5,2)\<close> at the draw \<open>492510770060287 / 2^53\<close>: the product with 999 rounds
  to exactly \<open>54.625\<close>, a tie that \<^verbatim>\<open>round\<close> resolves to the even \<open>54.62\<close>, and the stored
  value is the float nearest to \<open>54.62\<close>.
\<close>

lemma binary64_999: "binary64 999 = 999"
  by (subst binary64_eval [where e = 9]) (simp_all add: round_half_even_def Let_def)

lemma tie_product: "binary64 (492018259290226713 / 9007199254740992) = 437 / 8"
  by (subst binary64_eval [where e = 5]) (simp_all add: round_half_even_def Let_def)

lemma tie_sum: "binary64 (437 / 8) = 437 / 8"
  by (subst binary64_eval [where e = 5]) (simp_all add: round_half_even_def Let_def)

lemma tie_uniform:
  "uniform (NInt 0) (NInt 999) (fixed_rng 492510770060287)
     = (Inr (437 / 8), (fixed_rng 492510770060287)\<lparr>pos := 1\<rparr>)"
  by (simp add: uniform_def int_to_float_def binary64_zero random_def randbelow_def draw_def
      fixed_rng_def binary64_999 tie_product tie_sum)

lemma tie_round: "py_round (437 / 8) 2 = 7687081613968015 / 140737488355328"
proof -
  have r: "round_half_even (437 / 8 * 10 ^ 2) = 5462"
    by (simp add: round_half_even_def Let_def)
  show ?thesis
    unfolding py_round_def r
    by (subst binary64_eval [where e = 5]) (simp_all add: round_half_even_def Let_def)
qed

lemma tie_field:
  "map_sum id fst (gen_field c
      (PDict [(''name'', PStr ''x''), (''type'', PStr ''double''), (''doc'', PStr ''number(5,2)'')])
      ([], fixed_rng 492510770060287))
     = Inr [(PStr ''x'', VFloat (7687081613968015 / 140737488355328))]"
  using tie_uniform tie_round
  by (simp add: gen_field_def handle_complex_type_def double_value_def parse_number_format_def
      lower_def lower_char_def startswith_def is_digit_def int_of_digits_def digit_value_def
      max_value_of_def store_def setitem_def)

subsection \<open>Facts about the sample inputs\<close>


lemma fresh_world_denied: "denied fresh_world = [[]]"
  by (simp add: fresh_world_def)

lemma output_path_nonempty: "output_path output_folder num_records schema_name \<noteq> []"
  by (simp add: output_path_def path_join_def)



lemma lower_EMAIL: "lower ''EMAIL'' = ''email''"
  by code_simp

section \<open>The claims\<close>




text \<open>
  C2. For a field whose type is the tag \<open>"int"\<close> the loop body stores an integer between
  0 and 999999 under the name of the field, whatever the random source returns.
\<close>

theorem int_field_in_range:
  assumes "map_of kvs ''name'' = Some nm" and "hashable nm"
    and "map_of kvs ''type'' = Some (PStr ''int'')"
    and "doc_is_text kvs"
  shows "\<exists>i r' g'. gen_field c (PDict kvs) (r, g) = Inr (r', g')
           \<and> getitem r' nm = Some (VInt i) \<and> 0 \<le> i \<and> i \<le> 999999"
proof -
  obtain doc where d: "get_doc_lower (PDict kvs) = Inr doc"
    using get_doc_lower_text [OF assms(4)] by blast
  obtain i g2 where ri: "randint 0 999999 g = (i, g2)"
    by (cases "randint 0 999999 g")
  have rng: "0 \<le> i \<and> i \<le> 999999"
    using randint_range [of 0 999999 g] ri by simp
  have "gen_field c (PDict kvs) (r, g) = Inr (assign r nm (VInt i), g2)"
    using assms d ri
    by (simp add: gen_field_def handle_complex_primitive store_hashable)
  then show ?thesis
    using rng getitem_assign_same by blast
qed

theorem int_field_in_range_witness:
  "\<exists>i r' g'. gen_field plain_collaborators (PDict [(''name'', PStr ''id''), (''type'', PStr ''int'')])
                ([], fixed_rng 1234567) = Inr (r', g')
     \<and> getitem r' (PStr ''id'') = Some (VInt i) \<and> 0 \<le> i \<and> i \<le> 999999"
  using int_field_in_range [where kvs = "[(''name'', PStr ''id''), (''type'', PStr ''int'')]"
      and nm = "PStr ''id''" and c = plain_collaborators and r = "[]" and g = "fixed_rng 1234567"]
  by (simp add: doc_is_text_def)

text \<open>
  C3, as amended. For a double field whose lowercased doc matches
  \<open>number(precision, scale)\<close> with \<open>scale \<le> precision\<close> and \<open>precision - scale \<le> 308\<close>, the
  loop body stores a float \<open>x\<close> under the name of the field: \<open>y\<close> is the uniform draw from
  0 to \<open>10^(precision - scale) - 1\<close>, \<open>y\<close> is rounded to \<open>scale\<close> decimal places (a decimal
  number within half a unit of the last place of \<open>y\<close>), \<open>x\<close> is the float nearest to that
  decimal number, and \<open>x\<close> lies between 0 and \<open>10^(precision - scale) - 1\<close>.
\<close>

theorem number_field_range:
  assumes "map_of kvs ''name'' = Some nm" and "hashable nm"
    and "map_of kvs ''type'' = Some (PStr ''double'')"
    and "map_of kvs ''doc'' = Some (PStr d)"
    and "number_pattern (lower d) ds1 ds2 rest"
    and "precision = int_of_digits ds1" and "scale = int_of_digits ds2"
    and "scale \<le> precision" and "precision - scale \<le> 308"
  shows "\<exists>x y r' g'. gen_field c (PDict kvs) (r, g) = Inr (r', g')
           \<and> getitem r' nm = Some (VFloat x)
           \<and> uniform (NInt 0) (NInt (10 ^ (precision - scale) - 1)) g = (Inr y, g')
           \<and> 0 \<le> y \<and> y \<le> 10 ^ (precision - scale) - 1
           \<and> x = binary64 (of_int (round_half_even (y * 10 ^ scale)) / 10 ^ scale)
           \<and> \<bar>of_int (round_half_even (y * 10 ^ scale)) / 10 ^ scale - y\<bar> \<le> 1 / (2 * 10 ^ scale)
           \<and> 0 \<le> x \<and> x \<le> 10 ^ (precision - scale) - 1"
proof -
  have ps: "parse_number_format (lower d) = Some (precision, scale)"
    using parse_of_pattern [OF assms(5)] assms(6,7) by simp
  define M :: int where "M = 10 ^ (precision - scale) - 1"
  have M0: "0 \<le> M" by (simp add: M_def)
  have Mt: "M < 2 ^ 1024 - 2 ^ 970"
    unfolding M_def using assms(9) by (rule pow10_representable)
  obtain y g' where un: "uniform (NInt 0) (NInt M) g = (Inr y, g')"
    and yf: "is_binary64 y" and y: "0 \<le> y" "y \<le> of_int M"
    using uniform_int_range [OF M0 Mt] by blast
  define x where "x = py_round y scale"
  have dv: "double_value (lower d) g = Inr (Some x, g')"
    using ps assms(8) parse_startswith [OF ps] un
    by (simp add: double_value_def max_value_of_def M_def x_def)
  have "gen_field c (PDict kvs) (r, g) = Inr (assign r nm (VFloat x), g')"
    using assms(1,2,3,4) dv
    by (simp add: gen_field_def handle_complex_primitive store_hashable)
  moreover have "uniform (NInt 0) (NInt (10 ^ (precision - scale) - 1)) g = (Inr y, g')"
    using un by (simp add: M_def)
  moreover have "y \<le> 10 ^ (precision - scale) - 1"
    using y(2) by (simp add: M_def)
  moreover have "x = binary64 (of_int (round_half_even (y * 10 ^ scale)) / 10 ^ scale)"
    by (simp add: x_def py_round_def)
  moreover have "\<bar>of_int (round_half_even (y * 10 ^ scale)) / 10 ^ scale - y\<bar>
      \<le> 1 / (2 * 10 ^ scale)"
    by (rule decimal_close)
  moreover have "0 \<le> x" using y(1) by (simp add: x_def py_round_nonneg)
  moreover have "x \<le> 10 ^ (precision - scale) - 1"
    using py_round_le_int [OF yf y, of scale] by (simp add: x_def M_def)
  ultimately show ?thesis
    using y(1) getitem_assign_same by blast
qed

theorem number_field_range_witness:
  "\<exists>x y r' g'. gen_field plain_collaborators
        (PDict [(''name'', PStr ''price''), (''type'', PStr ''double''), (''doc'', PStr ''NUMBER(5,2)'')])
        ([], fixed_rng 12345) = Inr (r', g')
     \<and> getitem r' (PStr ''price'') = Some (VFloat x)
     \<and> uniform (NInt 0) (NInt 999) (fixed_rng 12345) = (Inr y, g')
     \<and> 0 \<le> y \<and> y \<le> 999
     \<and> x = binary64 (of_int (round_half_even (y * 100)) / 100)
     \<and> \<bar>of_int (round_half_even (y * 100)) / 100 - y\<bar> \<le> 1 / 200
     \<and> 0 \<le> x \<and> x \<le> 999"
proof -
  have l: "lower ''NUMBER(5,2)'' = ''number(5,2)''"
    by code_simp
  have p: "number_pattern (lower ''NUMBER(5,2)'') ''5'' ''2'' []"
    by (simp add: l number_pattern_def is_digit_def)
  have p1: "(5::nat) = int_of_digits ''5''" and p2: "(2::nat) = int_of_digits ''2''"
    by (simp_all add: int_of_digits_def digit_value_def)
  show ?thesis
    using number_field_range [where kvs = "[(''name'', PStr ''price''), (''type'', PStr ''double''),
          (''doc'', PStr ''NUMBER(5,2)'')]" and nm = "PStr ''price''" and d = "''NUMBER(5,2)''"
        and c = plain_collaborators and r = "[]" and g = "fixed_rng 12345", OF _ _ _ _ p p1 p2]
    by simp
qed

text \<open>
  C3 as stated fails in two ways. With the doc \<open>number(2,5)\<close> the bound
  \<open>10^(2-5) - 1\<close> is negative and so is the value: the float \<open>-0.4995\<close> when the draw is
  one half. With the doc \<open>number(400,0)\<close> no value is generated, the conversion of
  \<open>10^400 - 1\<close> to a float raises \<^verbatim>\<open>OverflowError\<close>.
\<close>

theorem number_field_range_counterexample:
  "map_sum id fst (gen_field plain_collaborators
      (PDict [(''name'', PStr ''x''), (''type'', PStr ''double''), (''doc'', PStr ''number(2,5)'')])
      ([], fixed_rng (2 ^ 52)))
     = Inr [(PStr ''x'', VFloat (- (8998192055486251 / 18014398509481984)))]
   \<and> map_sum id fst (gen_field plain_collaborators
      (PDict [(''name'', PStr ''x''), (''type'', PStr ''double''), (''doc'', PStr ''number(400,0)'')])
      ([], fixed_rng 0))
     = Inl OverflowError"
proof -
  have "map_sum id fst (gen_field plain_collaborators
      (PDict [(''name'', PStr ''x''), (''type'', PStr ''double''), (''doc'', PStr ''number(2,5)'')])
      ([], fixed_rng (2 ^ 52)))
     = Inr [(PStr ''x'', VFloat (- (8998192055486251 / 18014398509481984)))]"
    using uniform_half py_round_half
    by (simp add: gen_field_def handle_complex_type_def double_value_def parse_number_format_def
        lower_def lower_char_def startswith_def is_digit_def int_of_digits_def digit_value_def
        max_value_2_5 store_def setitem_def)
  moreover have "map_sum id fst (gen_field plain_collaborators
      (PDict [(''name'', PStr ''x''), (''type'', PStr ''double''), (''doc'', PStr ''number(400,0)'')])
      ([], fixed_rng 0))
     = Inl OverflowError"
    by (simp add: gen_field_def handle_complex_type_def double_value_def parse_number_format_def
        lower_def lower_char_def startswith_def is_digit_def int_of_digits_def digit_value_def
        max_value_of_def int_to_float_def uniform_def random_def randbelow_def draw_def
        fixed_rng_def)
  ultimately show ?thesis by simp
qed



text \<open>
  C5. The claim says that a nested type without the inner \<open>type\<close> key is omitted without
  an error. The code reads \<^verbatim>\<open>field['type']['type']\<close> without a check, while it checks
  \<^verbatim>\<open>'maxLength' in field['type']\<close>: for the schema with the single field
  \<open>{name: "a", type: {maxLength: 3}}\<close> the run for one record ends with
  \<^verbatim>\<open>KeyError('type')\<close>.
\<close>

theorem missing_inner_type:
  "fst (generate_dummy_data plain_collaborators
          (PDict [(''fields'', PList [PDict [(''name'', PStr ''a''),
                                             (''type'', PDict [(''maxLength'', PInt 3)])]])])
          1 ''out'' ''s'' fresh_world)
     = Some (KeyError ''type'')"
  by (simp add: generate_dummy_data_def fresh_world_def Let_def output_path_nonempty
      build_record_def gen_field_def
      handle_complex_type_def lower_def)

text \<open>
  A nested type that has the inner \<open>type\<close> key but is not \<open>"string"\<close> with a
  \<open>maxLength\<close> is omitted, as the claim says: the record and the random source are unchanged.
\<close>

lemma other_nested_type_omitted:
  assumes "map_of kvs ''name'' = Some nm"
    and "map_of kvs ''type'' = Some (PDict tkvs)"
    and "map_of tkvs ''type'' = Some tt"
    and "tt \<noteq> PStr ''string'' \<or> ''maxLength'' \<notin> fst ` set tkvs"
    and "doc_is_text kvs"
  shows "gen_field c (PDict kvs) (r, g) = Inr (r, g)"
proof -
  obtain doc where "get_doc_lower (PDict kvs) = Inr doc"
    using get_doc_lower_text [OF assms(5)] by blast
  moreover have "handle_complex_type (PDict kvs) g = Inr (None, g)"
    using assms(2,3,4) by (auto simp: handle_complex_type_def)
  ultimately show ?thesis
    using assms(1,2) by (simp add: gen_field_def)
qed

text \<open>
  C6, as amended. For a schema dictionary without the key \<open>fields\<close> and a record count
  \<open>N \<ge> 1\<close>, when the folder and the file can be written, the run ends with
  \<^verbatim>\<open>KeyError('fields')\<close> in the first pass of the loop; the file was created and is empty,
  nothing was printed.
\<close>

theorem missing_fields_raises:
  assumes "map_of kvs ''fields'' = None" and "1 \<le> num_records"
    and "output_folder \<notin> set (denied w)"
    and "output_path output_folder num_records schema_name \<notin> set (denied w)"
  shows "generate_dummy_data c (PDict kvs) num_records output_folder schema_name w
           = (Some (KeyError ''fields''),
              w\<lparr>files := (files w)(output_path output_folder num_records schema_name \<mapsto> [])\<rparr>)"
proof -
  obtain n where n: "nat num_records = Suc n"
    using assms(2) by (cases "nat num_records") simp_all
  have "write_records c (PDict kvs) (nat num_records) ([], rand w)
          = (Some (KeyError ''fields''), [], rand w)"
    using assms(1) by (simp add: n build_record_def)
  then show ?thesis
    using assms(3,4) by (simp add: generate_dummy_data_def Let_def)
qed

theorem missing_fields_raises_witness:
  "generate_dummy_data plain_collaborators (PDict [(''title'', PStr ''people'')]) 2 ''out'' ''s''
     fresh_world
   = (Some (KeyError ''fields''),
      fresh_world\<lparr>files := (files fresh_world)(output_path ''out'' 2 ''s'' \<mapsto> [])\<rparr>)"
  using missing_fields_raises [where kvs = "[(''title'', PStr ''people'')]" and num_records = 2
      and output_folder = "''out''" and schema_name = "''s''" and w = fresh_world
      and c = plain_collaborators]
  by (simp add: fresh_world_denied output_path_nonempty)

text \<open>
  C6 as stated fails for the record count 0: the loop body never runs, the schema is
  never read, and the run of the empty dictionary succeeds.
\<close>

theorem missing_fields_raises_counterexample:
  "fst (generate_dummy_data plain_collaborators (PDict []) 0 ''out'' ''s'' fresh_world) = None"
  by (simp add: generate_dummy_data_def fresh_world_def Let_def output_path_nonempty)

text \<open>
  C7. For a double field whose lowercased doc starts with \<open>number(\<close> and does not match
  the pattern, the loop body stores nothing and raises nothing: it returns the record
  and the random source as they were.
\<close>

theorem malformed_number_omitted:
  assumes "map_of kvs ''name'' = Some nm"
    and "map_of kvs ''type'' = Some (PStr ''double'')"
    and "map_of kvs ''doc'' = Some (PStr d)"
    and "startswith ''number('' (lower d)"
    and "\<not> (\<exists>ds1 ds2 rest. number_pattern (lower d) ds1 ds2 rest)"
  shows "gen_field c (PDict kvs) (r, g) = Inr (r, g)"
proof -
  have "parse_number_format (lower d) = None"
    using assms(5) parse_number_format_matches [of "lower d"] by blast
  then show ?thesis
    using assms(1-4)
    by (simp add: gen_field_def handle_complex_primitive double_value_def)
qed

theorem malformed_number_omitted_witness:
  "startswith ''number('' (lower ''number(5;2)'')
   \<and> \<not> (\<exists>ds1 ds2 rest. number_pattern (lower ''number(5;2)'') ds1 ds2 rest)
   \<and> gen_field plain_collaborators
        (PDict [(''name'', PStr ''price''), (''type'', PStr ''double''), (''doc'', PStr ''number(5;2)'')])
        ([(PStr ''id'', VInt 4)], fixed_rng 9)
      = Inr ([(PStr ''id'', VInt 4)], fixed_rng 9)"
proof -
  have s: "startswith ''number('' (lower ''number(5;2)'')"
    by (simp add: startswith_def lower_def lower_char_def)
  have "parse_number_format (lower ''number(5;2)'') = None"
    by (simp add: parse_number_format_def startswith_def lower_def lower_char_def is_digit_def)
  then have p: "\<not> (\<exists>ds1 ds2 rest. number_pattern (lower ''number(5;2)'') ds1 ds2 rest)"
    using parse_number_format_matches [of "lower ''number(5;2)''"] by blast
  show ?thesis
    using s p malformed_number_omitted [where kvs = "[(''name'', PStr ''price''),
          (''type'', PStr ''double''), (''doc'', PStr ''number(5;2)'')]" and nm = "PStr ''price''"
        and d = "''number(5;2)''" and c = plain_collaborators and r = "[(PStr ''id'', VInt 4)]"
        and g = "fixed_rng 9", OF _ _ _ s p]
    by simp
qed

text \<open>
  C8. Every key of a generated record is a name that a field definition of the schema
  declares: each step of the loop over the fields keeps the record or assigns under the
  name of the field it visits.
\<close>

theorem record_keys_declared:
  assumes "build_record c schema g = Inr (r, g')"
  shows "fst ` set r \<subseteq> set (declared_names schema)"
proof -
  obtain fs fl where "subscript schema ''fields'' = Inr fs" and "py_iter fs = Inr fl"
    and "visit_fields c fl ([], g) = Inr (r, g')"
    using assms by (auto simp: build_record_def split: sum.splits)
  then show ?thesis
    using visit_fields_keys [of c fl "[]" g r g'] by (simp add: declared_names_def)
qed

theorem record_keys_declared_witness:
  "build_record plain_collaborators example_schema (fixed_rng 7)
     = Inr ([(PStr ''id'', VInt 7), (PStr ''email'', VStr ''a@b.example'')], (fixed_rng 7)\<lparr>pos := 2\<rparr>)
   \<and> fst ` set [(PStr ''id'', VInt 7), (PStr ''email'', VStr ''a@b.example'')]
       \<subseteq> set (declared_names example_schema)"
proof -
  have b: "build_record plain_collaborators example_schema (fixed_rng 7)
     = Inr ([(PStr ''id'', VInt 7), (PStr ''email'', VStr ''a@b.example'')], (fixed_rng 7)\<lparr>pos := 2\<rparr>)"
    by (simp add: build_record_def example_schema_def gen_field_def handle_complex_type_def
        lower_EMAIL string_value_def plain_collaborators_def randint_def randbelow_def draw_def
        fixed_rng_def store_def setitem_def)
  show ?thesis
    using b record_keys_declared [OF b] by simp
qed



text \<open>
  In that run the string definition stores \<open>"word"\<close> under \<open>a\<close> first, the integer
  definition overwrites it with 7, and the definition of unknown type leaves it.
\<close>

lemma last_write_wins_run:
  "map_sum id fst (visit_fields plain_collaborators
      [PDict [(''name'', PStr ''a''), (''type'', PStr ''string'')],
       PDict [(''name'', PStr ''a''), (''type'', PStr ''int'')],
       PDict [(''name'', PStr ''a''), (''type'', PStr ''boolean'')],
       PDict [(''name'', PStr ''b''), (''type'', PStr ''int'')]]
      ([], fixed_rng 7))
     = Inr [(PStr ''a'', VInt 7), (PStr ''b'', VInt 7)]"
  by (simp add: gen_field_def handle_complex_type_def lower_def string_value_def
      plain_collaborators_def randint_def randbelow_def draw_def fixed_rng_def store_def
      setitem_def)


text \<open>
  C10. For a negative record count, when the folder and the file can be written, the run
  raises no error for any schema: it leaves the file empty, prints the message and draws
  no random number, and the run for the count 0 does the same with its own file name.
\<close>

theorem negative_count_empty_file:
  assumes "num_records < 0"
    and "output_folder \<notin> set (denied w)"
    and "output_path output_folder num_records schema_name \<notin> set (denied w)"
  shows "generate_dummy_data c schema num_records output_folder schema_name w
           = (None, saved_empty w (output_path output_folder num_records schema_name))
         \<and> (output_path output_folder 0 schema_name \<notin> set (denied w) \<longrightarrow>
              generate_dummy_data c schema 0 output_folder schema_name w
                = (None, saved_empty w (output_path output_folder 0 schema_name)))"
  using assms by (simp add: generate_dummy_data_def saved_empty_def Let_def)

theorem negative_count_empty_file_witness:
  "generate_dummy_data plain_collaborators example_schema (- 5) ''out'' ''s'' fresh_world
     = (None, saved_empty fresh_world (output_path ''out'' (- 5) ''s''))
   \<and> generate_dummy_data plain_collaborators example_schema 0 ''out'' ''s'' fresh_world
     = (None, saved_empty fresh_world (output_path ''out'' 0 ''s''))"
  using negative_count_empty_file [where num_records = "- 5" and output_folder = "''out''"
      and schema_name = "''s''" and w = fresh_world and c = plain_collaborators
      and schema = example_schema]
  by (simp add: fresh_world_denied output_path_nonempty)

end
